theory Spec2Isabelle
  imports Complex_Main "HOL-Library.Multiset"
begin

section \<open>Strings\<close>

text \<open>
  A Python \<open>str\<close> is modelled as a \<open>string\<close> whose characters are the code points
  below 256. The character classes below are Python's own, restricted to that range:
  \<open>str.isspace\<close> (used by \<open>str.strip\<close> and by \<open>\s\<close> in a \<open>str\<close> pattern),
  the line boundaries of \<open>str.splitlines\<close>, and \<open>str.isdigit\<close>.
\<close>

definition isspace :: "char \<Rightarrow> bool" where
  "isspace c \<longleftrightarrow>
     c \<in> {CHR 0x09, CHR 0x0A, CHR 0x0B, CHR 0x0C, CHR 0x0D,
          CHR 0x1C, CHR 0x1D, CHR 0x1E, CHR 0x1F, CHR 0x20, CHR 0x85, CHR 0xA0}"

definition is_linebreak :: "char \<Rightarrow> bool" where
  "is_linebreak c \<longleftrightarrow>
     c \<in> {CHR 0x0A, CHR 0x0B, CHR 0x0C, CHR 0x0D, CHR 0x1C, CHR 0x1D, CHR 0x1E, CHR 0x85}"

text \<open>
  The digits of \<open>str.isdigit\<close> below 256, by code point: \<open>0\<close> to \<open>9\<close> and the
  superscripts two, three and one.
\<close>

definition is_digit_char :: "char \<Rightarrow> bool" where
  "is_digit_char c \<longleftrightarrow>
     (let n = (of_char c :: nat) in (48 \<le> n \<and> n \<le> 57) \<or> n = 178 \<or> n = 179 \<or> n = 185)"

text \<open>\<open>s.isdigit()\<close>: the string is not empty and every character is a digit.\<close>

definition isdigit :: "string \<Rightarrow> bool" where
  "isdigit s \<longleftrightarrow> s \<noteq> [] \<and> list_all is_digit_char s"

text \<open>\<open>s.strip()\<close>: leading and trailing whitespace removed.\<close>

definition strip :: "string \<Rightarrow> string" where
  "strip s = rev (dropWhile isspace (rev (dropWhile isspace s)))"

definition startswith :: "string \<Rightarrow> string \<Rightarrow> bool" where
  "startswith s p \<longleftrightarrow> take (length p) s = p"

text \<open>
  \<open>s.splitlines()\<close>: the text is cut at every line boundary, \<open>\r\n\<close> counting as one;
  the boundaries are dropped and a boundary at the very end opens no further line.
  The first argument is the current line, reversed.
\<close>

fun splitlines_from :: "string \<Rightarrow> string \<Rightarrow> string list" where
  "splitlines_from cur [] = (if cur = [] then [] else [rev cur])"
| "splitlines_from cur (c # cs) =
     (if c = CHR 0x0D then
        (case cs of
           [] \<Rightarrow> rev cur # splitlines_from [] cs
         | d # ds \<Rightarrow>
             if d = CHR 0x0A then rev cur # splitlines_from [] ds
             else rev cur # splitlines_from [] cs)
      else if is_linebreak c then rev cur # splitlines_from [] cs
      else splitlines_from (c # cur) cs)"

definition splitlines :: "string \<Rightarrow> string list" where
  "splitlines s = splitlines_from [] s"

text \<open>A string between double quotes, as the keys and values of a manifest line are.\<close>

definition quoted :: "string \<Rightarrow> string" where
  "quoted s = CHR 0x22 # s @ [CHR 0x22]"

section \<open>Manifest parser\<close>

text \<open>
  \<open>_ACF_KV_RE.match(line)\<close> for the pattern \<open>^\s*"([^"]+)"\s*"([^"]*)"\s*$\<close>.
  The pattern has one way to match at most: each \<open>\s*\<close> is followed by a quote, which
  is no whitespace, and each bracket group ends at the next quote. The result is the
  pair of groups 1 and 2, or \<open>None\<close> when the line does not match.
\<close>

definition kv_match :: "string \<Rightarrow> (string \<times> string) option" where
  "kv_match line =
     (case dropWhile isspace line of
        [] \<Rightarrow> None
      | q1 # r1 \<Rightarrow>
          if q1 \<noteq> CHR 0x22 then None
          else let k = takeWhile (\<lambda>c. c \<noteq> CHR 0x22) r1;
                   r2 = dropWhile (\<lambda>c. c \<noteq> CHR 0x22) r1
               in if k = [] then None
                  else (case r2 of
                          [] \<Rightarrow> None
                        | q2 # r3 \<Rightarrow>
                            (case dropWhile isspace r3 of
                               [] \<Rightarrow> None
                             | q3 # r4 \<Rightarrow>
                                 if q3 \<noteq> CHR 0x22 then None
                                 else let v = takeWhile (\<lambda>c. c \<noteq> CHR 0x22) r4;
                                          r5 = dropWhile (\<lambda>c. c \<noteq> CHR 0x22) r4
                                      in (case r5 of
                                            [] \<Rightarrow> None
                                          | q4 # r6 \<Rightarrow>
                                              if dropWhile isspace r6 = [] then Some (k, v)
                                              else None))))"

datatype error = IndexError | OSError | RecursionError

text \<open>\<open>stack.pop()\<close> raises \<open>IndexError\<close> on an empty list.\<close>

definition pop :: "'a list \<Rightarrow> error + 'a list" where
  "pop st = (if st = [] then Inl IndexError else Inr (butlast st))"

text \<open>\<open>data.setdefault(k, v)\<close>: the key is set only when it is not in the dict yet.\<close>

definition setdefault :: "('k \<rightharpoonup> 'v) \<Rightarrow> 'k \<Rightarrow> 'v \<Rightarrow> ('k \<rightharpoonup> 'v)" where
  "setdefault d k v = (case d k of None \<Rightarrow> d(k \<mapsto> v) | Some _ \<Rightarrow> d)"

text \<open>The body of the \<open>for line in ...\<close> loop of \<open>parse_acf\<close>, on the stack and the dict.\<close>

definition acf_step ::
  "string list \<Rightarrow> (string \<rightharpoonup> string) \<Rightarrow> string \<Rightarrow> error + (string list \<times> (string \<rightharpoonup> string))"
where
  "acf_step stack data raw =
     (let line = strip raw in
      if line = [] \<or> startswith line ''//'' then Inr (stack, data)
      else if line = ''{'' then Inr (stack @ [''{''], data)
      else if line = ''}'' then
        (if stack \<noteq> [] then
           (case pop stack of Inl e \<Rightarrow> Inl e | Inr stack' \<Rightarrow> Inr (stack', data))
         else Inr (stack, data))
      else
        (case kv_match line of
           Some (k, v) \<Rightarrow>
             if length stack \<ge> 1 then Inr (stack, setdefault data k v) else Inr (stack, data)
         | None \<Rightarrow> Inr (stack, data)))"

text \<open>
  The loop. An exception leaves it with the dict as it is then, which is what the
  handler \<open>except Exception: return data\<close> returns; the first component tells whether
  the handler ran.
\<close>

fun acf_loop ::
  "string list \<Rightarrow> string list \<Rightarrow> (string \<rightharpoonup> string)
     \<Rightarrow> error option \<times> string list \<times> (string \<rightharpoonup> string)"
where
  "acf_loop [] stack data = (None, stack, data)"
| "acf_loop (raw # rest) stack data =
     (case acf_step stack data raw of
        Inl e \<Rightarrow> (Some e, stack, data)
      | Inr (stack', data') \<Rightarrow> acf_loop rest stack' data')"

text \<open>
  What \<open>parse_acf\<close> finds at its path: nothing (\<open>path.exists()\<close> is false); a
  path on which \<open>path.exists()\<close> itself raises (it passes on every \<open>OSError\<close> that
  does not mean the path is absent, such as a denied permission or a name that is too
  long); a file that \<open>read_text\<close> fails on; or the decoded text.
\<close>

datatype file_read = NotExists | ExistsFails | ReadFails | Text string

text \<open>
  \<open>parse_acf(path)\<close>. The test \<open>path.exists()\<close> stands before the \<open>try\<close>, so its
  exception leaves the function; an exception of \<open>read_text\<close> is caught and the
  dict, still empty, is returned.
\<close>

definition parse_acf :: "file_read \<Rightarrow> error + (string \<rightharpoonup> string)" where
  "parse_acf f =
     (case f of
        NotExists \<Rightarrow> Inr Map.empty
      | ExistsFails \<Rightarrow> Inl OSError
      | ReadFails \<Rightarrow> Inr Map.empty
      | Text t \<Rightarrow> Inr (snd (snd (acf_loop (splitlines t) [] Map.empty))))"

section \<open>Directory size scanner\<close>

text \<open>
  What lies at a path. \<open>File k s\<close> is an entry that \<open>os.walk\<close> reports among the
  \<open>files\<close> of its directory, that is, any entry that is no directory: \<open>k\<close> tells
  whether it is a regular file or something else (a symbolic link to a file, a FIFO, a
  socket, a device), and \<open>s\<close> is the \<open>st_size\<close> that \<open>stat()\<close>, which follows
  links, gives for it (\<open>None\<close> when \<open>stat()\<close> raises: a vanished file, a broken link,
  a denied permission). \<open>Dir ns\<close> is a directory with its entries, \<open>NoDir\<close> a
  directory that \<open>os.walk\<close> enters and cannot list. An entry that is a symbolic link
  to a directory is put among the \<open>dirs\<close> and not entered (\<open>followlinks\<close> is false);
  it adds nothing to any result and has no node.
\<close>

datatype kind = Regular | NotRegular

datatype node = File kind "nat option" | Dir "node list" | NoDir

fun is_dir_node :: "node \<Rightarrow> bool" where
  "is_dir_node (File k s) = False"
| "is_dir_node (Dir ns) = True"
| "is_dir_node NoDir = True"

fun files_of :: "node list \<Rightarrow> nat option list" where
  "files_of [] = []"
| "files_of (File k s # ns) = s # files_of ns"
| "files_of (n # ns) = files_of ns"

text \<open>The items of several walks in a row; the first exception ends them all.\<close>

fun walk_all :: "(error + 'a list) list \<Rightarrow> error + 'a list" where
  "walk_all [] = Inr []"
| "walk_all (r # rs) =
     (case r of
        Inl e \<Rightarrow> Inl e
      | Inr items \<Rightarrow> (case walk_all rs of Inl e \<Rightarrow> Inl e | Inr more_items \<Rightarrow> Inr (items @ more_items)))"

text \<open>
  \<open>os.walk(root)\<close>, top-down, with \<open>onerror=None\<close>: one item per directory it lists,
  here the \<open>files\<close> component only, then the items of each subdirectory. A root that
  cannot be listed yields no item and no error. Where \<open>os.walk\<close> is recursive (up to
  Python 3.11) each level of subdirectories is one more nested call, and the
  interpreter raises \<open>RecursionError\<close> when the nesting passes its limit; \<open>room\<close> is
  the number of nested calls there is room for. An \<open>os.walk\<close> that is a loop (from
  Python 3.12) behaves as one with more room than the tree is deep.
\<close>

fun os_walk :: "nat \<Rightarrow> node \<Rightarrow> error + nat option list list" where
  "os_walk room (File k s) = (if room = 0 then Inl RecursionError else Inr [])"
| "os_walk room NoDir = (if room = 0 then Inl RecursionError else Inr [])"
| "os_walk room (Dir ns) =
     (if room = 0 then Inl RecursionError
      else (case walk_all (map (os_walk (room - 1)) (filter is_dir_node ns)) of
              Inl e \<Rightarrow> Inl e
            | Inr items \<Rightarrow> Inr (files_of ns # items)))"

text \<open>\<open>fp.stat().st_size\<close>.\<close>

definition stat_size :: "nat option \<Rightarrow> error + nat" where
  "stat_size f = (case f of None \<Rightarrow> Inl OSError | Some n \<Rightarrow> Inr n)"

text \<open>The inner loop \<open>for f in files\<close>, with its \<open>try ... except Exception: pass\<close>.\<close>

fun sum_files :: "nat option list \<Rightarrow> int \<Rightarrow> int" where
  "sum_files [] tot = tot"
| "sum_files (f # rest) tot =
     (case stat_size f of
        Inr n \<Rightarrow> sum_files rest (tot + int n)
      | Inl e \<Rightarrow> sum_files rest tot)"

text \<open>The outer loop \<open>for root, _, files in os.walk(path)\<close>.\<close>

fun sum_walk :: "nat option list list \<Rightarrow> int \<Rightarrow> int" where
  "sum_walk [] tot = tot"
| "sum_walk (fs # rest) tot = sum_walk rest (sum_files fs tot)"

text \<open>
  \<open>dir_size_bytes(path)\<close>; \<open>None\<close> is a path where nothing exists, on which
  \<open>os.walk\<close> yields no item. An exception of the walk reaches the outer handler,
  \<open>except Exception: return 0\<close>, wherever in the tree it is raised: what was summed
  until then is dropped.
\<close>

definition dir_size_bytes :: "nat \<Rightarrow> node option \<Rightarrow> int" where
  "dir_size_bytes room path =
     (case (case path of None \<Rightarrow> Inr [] | Some nd \<Rightarrow> os_walk room nd) of
        Inl e \<Rightarrow> 0
      | Inr items \<Rightarrow> sum_walk items 0)"

section \<open>Active-download selector\<close>

type_synonym path = "string list"

record ActiveDownload =
  appid :: string
  name :: string
  state :: string
  download_dir :: path
  bytes_on_disk :: int

text \<open>
  The filesystem is outside the program and may change between two calls, so an entry
  of the \<open>downloading\<close> directory carries what each call made on it returns:
  \<open>p.name\<close>, \<open>p.is_dir()\<close> (\<open>None\<close>: it raises, as it does on an \<open>OSError\<close> that
  does not mean the path is absent, such as a denied permission) and
  \<open>p.stat().st_mtime\<close> (\<open>None\<close>: \<open>stat()\<close> raises) when the directory is listed,
  and, when the entry is examined as a candidate, what \<open>dir_size_bytes\<close> finds at its
  path, \<open>app_dir.stat().st_mtime\<close> (\<open>None\<close>: raises) and \<open>time.time()\<close>. On a
  filesystem that does not change, \<open>ent_stat_checked\<close> equals \<open>ent_stat_listed\<close>.
\<close>

record dir_entry =
  ent_name :: string
  ent_is_dir :: "bool option"
  ent_stat_listed :: "real option"
  ent_tree :: "node option"
  ent_stat_checked :: "real option"
  ent_clock :: real

text \<open>
  \<open>steamapps / "downloading"\<close>: absent (\<open>exists()\<close> is false); a path on which
  \<open>exists()\<close> raises; present but \<open>iterdir()\<close> raises (it is no directory, or may
  not be read); or its entries.
\<close>

datatype listing = Missing | CheckFails | ListFails | Entries "dir_entry list"

text \<open>
  What the selector meets: the \<open>downloading\<close> directory, what lies at each manifest
  path, and the room \<open>os.walk\<close> has for nested calls.
\<close>

record world =
  downloading_dir :: listing
  files :: "path \<Rightarrow> file_read"
  walk_room :: nat

text \<open>
  The loop over \<open>downloading.iterdir()\<close> that fills \<open>candidates\<close>. \<open>p.is_dir()\<close> is
  called on every entry and stands in no \<open>try\<close>; \<open>p.stat()\<close> stands in one.
\<close>

fun collect_candidates :: "dir_entry list \<Rightarrow> error + (real \<times> dir_entry) list" where
  "collect_candidates [] = Inr []"
| "collect_candidates (p # ps) =
     (case ent_is_dir p of
        None \<Rightarrow> Inl OSError
      | Some d \<Rightarrow>
          (case collect_candidates ps of
             Inl e \<Rightarrow> Inl e
           | Inr rest \<Rightarrow>
               if d \<and> isdigit (ent_name p) then
                 (case ent_stat_listed p of
                    Some mtime \<Rightarrow> Inr ((mtime, p) # rest)
                  | None \<Rightarrow> Inr rest)
               else Inr rest))"

text \<open>
  \<open>candidates.sort(reverse=True, key=lambda x: x[0])\<close>: descending by the key, and
  stable (entries with equal keys keep their order), as Python's reverse sort is.
\<close>

definition sort_candidates :: "(real \<times> dir_entry) list \<Rightarrow> (real \<times> dir_entry) list" where
  "sort_candidates cs = sort_key (\<lambda>x. - fst x) cs"

text \<open>\<open>info.get("name") or f"AppID {appid}"\<close>: an absent and an empty name both fall back.\<close>

definition display_name :: "(string \<rightharpoonup> string) \<Rightarrow> string \<Rightarrow> string" where
  "display_name info app =
     (case info ''name'' of
        Some v \<Rightarrow> if v \<noteq> [] then v else ''AppID '' @ app
      | None \<Rightarrow> ''AppID '' @ app)"

text \<open>
  Lines 128 to 133: the \<open>ActiveDownload\<close> built for an accepted candidate, or the
  exception of \<open>parse_acf\<close>.
\<close>

definition accept_candidate ::
  "world \<Rightarrow> path \<Rightarrow> dir_entry \<Rightarrow> int \<Rightarrow> error + ActiveDownload option"
where
  "accept_candidate w steamapps app_dir size_b =
     (let app = ent_name app_dir;
          manifest = steamapps @ [''appmanifest_'' @ app @ ''.acf'']
      in (case parse_acf (files w manifest) of
            Inl e \<Rightarrow> Inl e
          | Inr info \<Rightarrow>
              Inr (Some \<lparr>appid = app, name = display_name info app, state = ''downloading'',
                         download_dir = steamapps @ [''downloading'', ent_name app_dir],
                         bytes_on_disk = size_b\<rparr>)))"

text \<open>
  The loop \<open>for _, app_dir in candidates[:5]\<close>. The \<open>or\<close> is short-circuit: \<open>stat()\<close>
  is called only when the size is not positive, and it is in no \<open>try\<close>.
\<close>

fun scan_candidates ::
  "world \<Rightarrow> path \<Rightarrow> (real \<times> dir_entry) list \<Rightarrow> error + ActiveDownload option"
where
  "scan_candidates w steamapps [] = Inr None"
| "scan_candidates w steamapps ((m, app_dir) # rest) =
     (let size_b = dir_size_bytes (walk_room w) (ent_tree app_dir) in
      if size_b > 0 then accept_candidate w steamapps app_dir size_b
      else (case ent_stat_checked app_dir of
              None \<Rightarrow> Inl OSError
            | Some mtime \<Rightarrow>
                if ent_clock app_dir - mtime < 10 * 60
                then accept_candidate w steamapps app_dir size_b
                else scan_candidates w steamapps rest))"

definition find_active_download :: "world \<Rightarrow> path \<Rightarrow> error + ActiveDownload option" where
  "find_active_download w steamapps =
     (case downloading_dir w of
        Missing \<Rightarrow> Inr None
      | CheckFails \<Rightarrow> Inl OSError
      | ListFails \<Rightarrow> Inl OSError
      | Entries es \<Rightarrow>
          (case collect_candidates es of
             Inl e \<Rightarrow> Inl e
           | Inr candidates \<Rightarrow>
               if candidates = [] then Inr None
               else scan_candidates w steamapps (take 5 (sort_candidates candidates))))"

section \<open>Rate estimator\<close>

text \<open>
  The dicts \<open>prev\<close> and \<open>prev_time\<close> of \<open>main\<close>. Times and rates are Python floats;
  they are modelled as reals, so rounding is not part of the model.
\<close>

record rate_state =
  prev :: "string \<rightharpoonup> int"
  prev_time :: "string \<rightharpoonup> real"

text \<open>What a round prints: the notice, or the values the status line is formatted from.\<close>

datatype report =
  NoActive
  | StatusLine (line_name: string) (line_appid: string) (line_status: string)
      (line_rate: real) (line_bytes: int)

text \<open>\<open>prev.get(active.appid, active.bytes_on_disk)\<close>.\<close>

definition last_b :: "rate_state \<Rightarrow> ActiveDownload \<Rightarrow> int" where
  "last_b st active =
     (case prev st (appid active) of Some b \<Rightarrow> b | None \<Rightarrow> bytes_on_disk active)"

text \<open>\<open>prev_time.get(active.appid, now - args.interval)\<close>.\<close>

definition last_t :: "rate_state \<Rightarrow> real \<Rightarrow> int \<Rightarrow> ActiveDownload \<Rightarrow> real" where
  "last_t st now interval active =
     (case prev_time st (appid active) of Some t \<Rightarrow> t | None \<Rightarrow> now - real_of_int interval)"

definition delta_bytes :: "rate_state \<Rightarrow> ActiveDownload \<Rightarrow> int" where
  "delta_bytes st active = max 0 (bytes_on_disk active - last_b st active)"

definition status_of :: "int \<Rightarrow> string" where
  "status_of delta = (if delta < 256 * 1024 then ''paused or idle'' else ''downloading'')"

text \<open>Lines 199 to 219: the body of the polling loop once the selector has returned.\<close>

definition rate_round ::
  "rate_state \<Rightarrow> real \<Rightarrow> int \<Rightarrow> ActiveDownload option \<Rightarrow> rate_state \<times> report"
where
  "rate_round st now interval active_opt =
     (case active_opt of
        None \<Rightarrow> (st, NoActive)
      | Some active \<Rightarrow>
          (let dt = max 1 (now - last_t st now interval active);
               delta = delta_bytes st active;
               rate = real_of_int delta / dt;
               status = status_of delta
           in (st\<lparr>prev := (prev st)(appid active \<mapsto> bytes_on_disk active),
                   prev_time := (prev_time st)(appid active \<mapsto> now)\<rparr>,
               StatusLine (name active) (appid active) status rate (bytes_on_disk active))))"

text \<open>
  One polling round, lines 196 to 219: an exception of the selector is caught nowhere
  in \<open>main\<close> and ends the round, and the program.
\<close>

definition poll_round ::
  "world \<Rightarrow> path \<Rightarrow> rate_state \<Rightarrow> real \<Rightarrow> int \<Rightarrow> error + (rate_state \<times> report)"
where
  "poll_round w steamapps st now interval =
     (case find_active_download w steamapps of
        Inl e \<Rightarrow> Inl e
      | Inr active_opt \<Rightarrow> Inr (rate_round st now interval active_opt))"

section \<open>Definitions following the specification\<close>

text \<open>
  The parser as the specification words it: a nesting-depth counter, raised by an
  opening-brace line, lowered by a closing-brace line and floored at zero; every other
  line that is neither blank nor a comment is matched against the pair pattern, and a
  match counts only while the depth is at least 1. The result is the list of the pairs
  that count, in the order of the lines.
\<close>

fun spec_matched_pairs :: "nat \<Rightarrow> string list \<Rightarrow> (string \<times> string) list" where
  "spec_matched_pairs depth [] = []"
| "spec_matched_pairs depth (raw # rest) =
     (let line = strip raw in
      if line = ''{'' then spec_matched_pairs (depth + 1) rest
      else if line = ''}'' then spec_matched_pairs (depth - 1) rest
      else if line = [] \<or> startswith line ''//'' then spec_matched_pairs depth rest
      else (case kv_match line of
              None \<Rightarrow> spec_matched_pairs depth rest
            | Some kv \<Rightarrow>
                if depth \<ge> 1 then kv # spec_matched_pairs depth rest
                else spec_matched_pairs depth rest))"

text \<open>
  The scanner as the specification words it: the sum of the sizes of every regular
  file reachable by recursive descent, where a file that cannot be read and a subtree
  that cannot be entered count for zero. An entry that is no regular file is no part of
  the sum.
\<close>

fun spec_regular_size :: "node \<Rightarrow> int" where
  "spec_regular_size (File Regular (Some n)) = int n"
| "spec_regular_size (File Regular None) = 0"
| "spec_regular_size (File NotRegular s) = 0"
| "spec_regular_size NoDir = 0"
| "spec_regular_size (Dir ns) = sum_list (map spec_regular_size ns)"

text \<open>
  The sum over every entry that is no directory, regular file or not, reachable by
  recursive descent, each at the size its \<open>stat()\<close> gives and at zero when \<open>stat()\<close>
  fails.
\<close>

fun reachable_stat_size :: "node \<Rightarrow> int" where
  "reachable_stat_size (File k (Some n)) = int n"
| "reachable_stat_size (File k None) = 0"
| "reachable_stat_size NoDir = 0"
| "reachable_stat_size (Dir ns) = sum_list (map reachable_stat_size ns)"

text \<open>Every entry of the tree that is no directory is a regular file.\<close>

fun only_regular :: "node \<Rightarrow> bool" where
  "only_regular (File k s) = (k = Regular)"
| "only_regular NoDir = True"
| "only_regular (Dir ns) = list_all only_regular ns"

text \<open>
  The number of nested calls a walk of the tree makes: one for the root, and one more
  for each level of directories below it.
\<close>

fun walk_depth :: "node \<Rightarrow> nat" where
  "walk_depth (File k s) = 1"
| "walk_depth NoDir = 1"
| "walk_depth (Dir ns) = Suc (foldr max (map walk_depth (filter is_dir_node ns)) 0)"

text \<open>
  The acceptance test as the specification words it: the size on disk is greater than
  zero, or the time since the last modification is under ten minutes. A candidate whose
  modification time cannot be read passes on its size only.
\<close>

definition spec_accepts :: "nat \<Rightarrow> real \<times> dir_entry \<Rightarrow> bool" where
  "spec_accepts room c \<longleftrightarrow>
     dir_size_bytes room (ent_tree (snd c)) > 0
     \<or> (case ent_stat_checked (snd c) of
          Some mtime \<Rightarrow> ent_clock (snd c) - mtime < 600
        | None \<Rightarrow> False)"

section \<open>Example inputs\<close>

text \<open>
  Entries of the \<open>downloading\<close> directory: one with 5000 bytes on disk, one empty and
  3000 seconds old, and one that was listed and is gone when it is examined; then a
  pair, a directory modified at time 2000 that is gone when it is examined at time
  3000, and an older one with 5000 bytes on disk. A manifest text with a given name; a filesystem made
  of entries and of what lies at the manifest path of package 123, with the room for
  nested calls that a default recursion limit leaves; the download reported for package
  123; and a chain of directories, each the only entry of the one above.
\<close>

definition fresh_dir :: dir_entry where
  "fresh_dir = \<lparr>ent_name = ''123'', ent_is_dir = Some True, ent_stat_listed = Some 1000,
                 ent_tree = Some (Dir [File Regular (Some 5000)]),
                 ent_stat_checked = Some 1000, ent_clock = 1100\<rparr>"

definition stale_dir :: dir_entry where
  "stale_dir = \<lparr>ent_name = ''77'', ent_is_dir = Some True, ent_stat_listed = Some 2000,
                 ent_tree = Some (Dir []), ent_stat_checked = Some 2000,
                 ent_clock = 5000\<rparr>"

definition vanished_dir :: dir_entry where
  "vanished_dir = \<lparr>ent_name = ''123'', ent_is_dir = Some True, ent_stat_listed = Some 1000,
                    ent_tree = None, ent_stat_checked = None, ent_clock = 1100\<rparr>"

definition gone_newer_dir :: dir_entry where
  "gone_newer_dir = \<lparr>ent_name = ''456'', ent_is_dir = Some True, ent_stat_listed = Some 2000,
                      ent_tree = None, ent_stat_checked = None, ent_clock = 3000\<rparr>"

definition older_full_dir :: dir_entry where
  "older_full_dir = \<lparr>ent_name = ''123'', ent_is_dir = Some True, ent_stat_listed = Some 1000,
                      ent_tree = Some (Dir [File Regular (Some 5000)]),
                      ent_stat_checked = Some 1000, ent_clock = 3001\<rparr>"

definition manifest_with_name :: "string \<Rightarrow> string" where
  "manifest_with_name v =
     quoted ''AppState'' @ [CHR 0x0A] @ ''{'' @ [CHR 0x0A, CHR 0x09]
       @ quoted ''name'' @ [CHR 0x09, CHR 0x09] @ quoted v @ [CHR 0x0A] @ ''}'' @ [CHR 0x0A]"

definition world_with :: "dir_entry list \<Rightarrow> file_read \<Rightarrow> world" where
  "world_with es m =
     \<lparr>downloading_dir = Entries es,
      files = (\<lambda>p. if p = [''steamapps'', ''appmanifest_123.acf''] then m else NotExists),
      walk_room = 998\<rparr>"

definition download_123 :: "string \<Rightarrow> int \<Rightarrow> ActiveDownload" where
  "download_123 n b =
     \<lparr>appid = ''123'', name = n, state = ''downloading'',
      download_dir = [''steamapps'', ''downloading'', ''123''], bytes_on_disk = b\<rparr>"

fun chain :: "nat \<Rightarrow> node" where
  "chain 0 = Dir []"
| "chain (Suc n) = Dir [chain n]"

section \<open>The manifest parser: proofs\<close>

lemma pop_nonempty: "stack \<noteq> [] \<Longrightarrow> pop stack = Inr (butlast stack)"
  by (simp add: pop_def)

lemma acf_step_total: "\<exists>stack' data'. acf_step stack data raw = Inr (stack', data')"
  by (auto simp: acf_step_def Let_def pop_nonempty split: option.splits)

lemma acf_loop_no_error: "fst (acf_loop ls stack data) = None"
proof (induction ls arbitrary: stack data)
  case Nil
  show ?case by simp
next
  case (Cons raw rest)
  obtain stack' data' where "acf_step stack data raw = Inr (stack', data')"
    using acf_step_total by blast
  then show ?case using Cons.IH by simp
qed

lemma map_add_setdefault: "m ++ setdefault d k v = m(k \<mapsto> v) ++ d"
  by (rule ext) (simp add: map_add_def setdefault_def split: option.splits)

lemma startswith_slash_not_brace:
  "startswith ''{'' ''//'' = False" "startswith ''}'' ''//'' = False"
  by (simp_all add: startswith_def)

lemma acf_loop_data:
  "snd (snd (acf_loop ls stack data)) = map_of (spec_matched_pairs (length stack) ls) ++ data"
proof (induction ls arbitrary: stack data)
  case Nil
  show ?case by simp
next
  case (Cons raw rest)
  show ?case
  proof (cases "strip raw = ''{''")
    case True
    then show ?thesis using Cons.IH [of "stack @ [''{'']" data]
      by (simp add: acf_step_def startswith_def)
  next
    case nopen: False
    show ?thesis
    proof (cases "strip raw = ''}''")
      case True
      then show ?thesis using Cons.IH [of "butlast stack" data] Cons.IH [of stack data]
        by (cases "stack = []") (simp_all add: acf_step_def startswith_def pop_def)
    next
      case nclose: False
      show ?thesis
      proof (cases "strip raw = [] \<or> startswith (strip raw) ''//''")
        case True
        then show ?thesis using nopen nclose Cons.IH [of stack data]
          by (simp add: acf_step_def)
      next
        case False
        show ?thesis
        proof (cases "kv_match (strip raw)")
          case None
          then show ?thesis using False nopen nclose Cons.IH [of stack data]
            by (simp add: acf_step_def)
        next
          case (Some kv)
          obtain k v where kv: "kv = (k, v)" by (cases kv)
          show ?thesis
          proof (cases "stack = []")
            case True
            then show ?thesis using Some kv False nopen nclose Cons.IH [of stack data]
              by (simp add: acf_step_def)
          next
            case ne: False
            then have "length stack \<ge> 1" by (cases stack) simp_all
            then have step: "acf_step stack data raw = Inr (stack, setdefault data k v)"
              and pairs: "spec_matched_pairs (length stack) (raw # rest) =
                            (k, v) # spec_matched_pairs (length stack) rest"
              using Some kv False nopen nclose by (simp_all add: acf_step_def)
            have "map_of ((k, v) # spec_matched_pairs (length stack) rest) =
                    (map_of (spec_matched_pairs (length stack) rest))(k \<mapsto> v)"
              by (rule ext) simp
            then show ?thesis
              using Cons.IH [of stack "setdefault data k v"]
              by (simp only: step pairs acf_loop.simps sum.case prod.case map_add_setdefault)
          qed
        qed
      qed
    qed
  qed
qed

lemma close_at_depth_zero: "strip raw = ''}'' \<Longrightarrow> acf_step [] data raw = Inr ([], data)"
  by (simp add: acf_step_def startswith_def)


lemma acf_loop_append:
  "acf_loop pre stack data = (None, stack', data')
     \<Longrightarrow> acf_loop (pre @ rest) stack data = acf_loop rest stack' data'"
proof (induction pre arbitrary: stack data)
  case Nil
  then show ?case by simp
next
  case (Cons raw pre)
  obtain s1 d1 where step: "acf_step stack data raw = Inr (s1, d1)"
    using acf_step_total by blast
  with Cons.prems have "acf_loop pre s1 d1 = (None, stack', data')" by simp
  then have "acf_loop (pre @ rest) s1 d1 = acf_loop rest stack' data'" by (rule Cons.IH)
  with step show ?case by simp
qed

lemma kv_match_shape:
  assumes "kv_match line = Some kv"
  shows "line \<noteq> []" "\<not> startswith line ''//''" "line \<noteq> ''{''" "line \<noteq> ''}''"
proof -
  show "line \<noteq> []" using assms by (auto simp: kv_match_def)
  show "\<not> startswith line ''//''"
  proof
    assume "startswith line ''//''"
    then obtain r where "line = CHR ''/'' # r"
      by (cases line) (auto simp: startswith_def)
    then show False using assms by (simp add: kv_match_def isspace_def)
  qed
  show "line \<noteq> ''{''" using assms by (auto simp: kv_match_def isspace_def)
  show "line \<noteq> ''}''" using assms by (auto simp: kv_match_def isspace_def)
qed

lemma recorded_value_kept:
  "data k = Some v \<Longrightarrow> snd (snd (acf_loop ls stack data)) k = Some v"
  by (simp add: acf_loop_data map_add_def)

lemma acf_step_records:
  assumes "kv_match (strip raw) = Some (k, v)" and "stack \<noteq> []" and "data k = None"
  shows "acf_step stack data raw = Inr (stack, data(k \<mapsto> v))"
proof -
  have "length stack \<ge> 1" using assms(2) by (cases stack) simp_all
  then show ?thesis
    using assms(1,3) kv_match_shape [OF assms(1)]
    by (simp add: acf_step_def setdefault_def)
qed

lemma no_open_no_pairs:
  "\<forall>raw \<in> set ls. strip raw \<noteq> ''{'' \<Longrightarrow> spec_matched_pairs 0 ls = []"
  by (induction ls) (simp_all add: Let_def split: option.splits)

text \<open>
  C6. When a manifest text holds a key more than once, the record has the value of the
  first pair recorded for it: if the lines before \<open>raw\<close> leave the key unrecorded and
  \<open>raw\<close> is a pair for the key inside a block, the parsed record maps the key to the
  value of \<open>raw\<close>, whatever pairs for the same key the later lines hold. The parser
  being a function of the text, parsing the same text again gives the same record.
\<close>

theorem first_value_wins:
  assumes "splitlines t = pre @ raw # post"
      and "acf_loop pre [] Map.empty = (None, stack, data)"
      and "stack \<noteq> []"
      and "data k = None"
      and "kv_match (strip raw) = Some (k, v)"
  shows "(\<exists>d. parse_acf (Text t) = Inr d \<and> d k = Some v)
       \<and> parse_acf (Text t) = parse_acf (Text t)"
proof -
  have "acf_loop (pre @ raw # post) [] Map.empty = acf_loop (raw # post) stack data"
    using assms(2) by (rule acf_loop_append)
  also have "\<dots> = acf_loop post stack (data(k \<mapsto> v))"
    using acf_step_records [of raw k v stack data] assms(3,4,5) by simp
  finally have "parse_acf (Text t) = Inr (snd (snd (acf_loop post stack (data(k \<mapsto> v)))))"
    using assms(1) by (simp add: parse_acf_def)
  then show ?thesis by (simp add: recorded_value_kept)
qed

lemmas acf_eval = splitlines_def quoted_def is_linebreak_def acf_step_def strip_def isspace_def
  startswith_def kv_match_def setdefault_def pop_def

theorem first_value_wins_witness:
  "\<exists>d. parse_acf (Text (''{'' @ [CHR 0x0A] @ quoted ''a'' @ '' '' @ quoted ''1'' @ [CHR 0x0A]
               @ quoted ''a'' @ '' '' @ quoted ''2'' @ [CHR 0x0A] @ ''}'')) = Inr d
        \<and> d ''a'' = Some ''1''"
  using first_value_wins [of "''{'' @ [CHR 0x0A] @ quoted ''a'' @ '' '' @ quoted ''1'' @ [CHR 0x0A]
               @ quoted ''a'' @ '' '' @ quoted ''2'' @ [CHR 0x0A] @ ''}''"
      "[''{'']" "quoted ''a'' @ '' '' @ quoted ''1''" "[quoted ''a'' @ '' '' @ quoted ''2'', ''}'']"
      "[''{'']" Map.empty "''a''" "''1''"]
  by (simp add: acf_eval)

text \<open>
  C7. For every manifest text, braces balanced or not, the handler of the parser never
  runs (no step of the loop raises); a closing-brace line met with an empty stack
  leaves the stack empty; and the record is exactly the first-wins map of the pairs
  that matched the pattern while the depth was at least 1, so a text without an
  opening-brace line, whose pairs are all at depth 0, gives the empty record.
\<close>

theorem parser_never_faults:
  "fst (acf_loop (splitlines t) [] Map.empty) = None
   \<and> parse_acf (Text t) = Inr (map_of (spec_matched_pairs 0 (splitlines t)))
   \<and> (strip raw = ''}'' \<longrightarrow> acf_step [] data raw = Inr ([], data))
   \<and> ((\<forall>l \<in> set (splitlines t). strip l \<noteq> ''{'') \<longrightarrow> parse_acf (Text t) = Inr Map.empty)"
proof -
  have data: "parse_acf (Text t) = Inr (map_of (spec_matched_pairs 0 (splitlines t)))"
    using acf_loop_data [of "splitlines t" "[]" Map.empty] by (simp add: parse_acf_def)
  have "(\<forall>l \<in> set (splitlines t). strip l \<noteq> ''{'') \<longrightarrow> parse_acf (Text t) = Inr Map.empty"
    using data no_open_no_pairs [of "splitlines t"] by simp
  then show ?thesis
    using data acf_loop_no_error [of "splitlines t" "[]" Map.empty] close_at_depth_zero [of raw data]
    by blast
qed

theorem parser_never_faults_witness:
  "fst (acf_loop (splitlines (''}'' @ [CHR 0x0A] @ quoted ''a'' @ '' '' @ quoted ''1'')) [] Map.empty) = None
   \<and> parse_acf (Text (''}'' @ [CHR 0x0A] @ quoted ''a'' @ '' '' @ quoted ''1'')) = Inr Map.empty
   \<and> strip '' }'' = ''}''
   \<and> acf_step [] Map.empty '' }'' = Inr ([], Map.empty)"
  using parser_never_faults [of "''}'' @ [CHR 0x0A] @ quoted ''a'' @ '' '' @ quoted ''1''" "'' }''" Map.empty]
  by (simp add: acf_eval)

section \<open>The directory size scanner: proofs\<close>

lemma sum_files_acc: "sum_files fs tot = tot + sum_files fs 0"
proof (induction fs arbitrary: tot)
  case Nil
  show ?case by simp
next
  case (Cons f rest)
  show ?case
  proof (cases f)
    case None
    then show ?thesis using Cons.IH [of tot] by (simp add: stat_size_def)
  next
    case (Some n)
    then show ?thesis using Cons.IH [of "tot + int n"] Cons.IH [of "int n"]
      by (simp add: stat_size_def)
  qed
qed

lemma sum_walk_acc: "sum_walk fss tot = tot + sum_walk fss 0"
proof (induction fss arbitrary: tot)
  case Nil
  show ?case by simp
next
  case (Cons fs rest)
  show ?case
    using Cons.IH [of "sum_files fs tot"] Cons.IH [of "sum_files fs 0"] sum_files_acc [of fs tot]
    by simp
qed

lemma sum_walk_append: "sum_walk (xs @ ys) tot = sum_walk ys (sum_walk xs tot)"
  by (induction xs arbitrary: tot) simp_all

lemma walk_all_sums:
  assumes "\<forall>d \<in> set ds. \<exists>items. f d = Inr items \<and> sum_walk items 0 = g d"
  shows "\<exists>items. walk_all (map f ds) = Inr items \<and> sum_walk items 0 = (\<Sum>d\<leftarrow>ds. g d)"
  using assms
proof (induction ds)
  case Nil
  show ?case by simp
next
  case (Cons d ds)
  from Cons.prems obtain here where here: "f d = Inr here" "sum_walk here 0 = g d"
    by auto
  from Cons.prems have "\<forall>d \<in> set ds. \<exists>items. f d = Inr items \<and> sum_walk items 0 = g d"
    by simp
  then obtain below where below: "walk_all (map f ds) = Inr below"
      "sum_walk below 0 = (\<Sum>d\<leftarrow>ds. g d)"
    using Cons.IH by blast
  have "walk_all (map f (d # ds)) = Inr (here @ below)"
    using here(1) below(1) by simp
  moreover have "sum_walk (here @ below) 0 = g d + (\<Sum>d\<leftarrow>ds. g d)"
    using here(2) below(2) sum_walk_acc [of below "sum_walk here 0"]
    by (simp add: sum_walk_append)
  ultimately show ?case by simp
qed

lemma walk_all_raises:
  assumes "d \<in> set ds" and "\<exists>e. f d = Inl e"
  shows "\<exists>e. walk_all (map f ds) = Inl e"
  using assms
proof (induction ds)
  case Nil
  then show ?case by simp
next
  case (Cons x xs)
  show ?case
  proof (cases "f x")
    case (Inl e)
    then show ?thesis by simp
  next
    case (Inr items)
    then have "d \<in> set xs" using Cons.prems by auto
    then obtain e where "walk_all (map f xs) = Inl e" using Cons.IH Cons.prems(2) by blast
    then show ?thesis using Inr by simp
  qed
qed

lemma le_foldr_max: "d \<in> set ds \<Longrightarrow> h d \<le> foldr max (map h ds) (0::nat)"
  by (induction ds) auto

lemma split_files_dirs:
  "(\<Sum>n\<leftarrow>ns. reachable_stat_size n)
     = sum_files (files_of ns) 0 + (\<Sum>d\<leftarrow>filter is_dir_node ns. reachable_stat_size d)"
proof (induction ns)
  case Nil
  show ?case by simp
next
  case (Cons n ns)
  show ?case
  proof (cases n)
    case (File k s)
    then show ?thesis using Cons.IH sum_files_acc [of "files_of ns" "int (the s)"]
      by (cases s) (simp_all add: stat_size_def)
  next
    case (Dir ms)
    then show ?thesis using Cons.IH by simp
  next
    case NoDir
    then show ?thesis using Cons.IH by simp
  qed
qed

lemma os_walk_sums:
  "is_dir_node n \<Longrightarrow> walk_depth n \<le> room \<Longrightarrow>
   \<exists>items. os_walk room n = Inr items \<and> sum_walk items 0 = reachable_stat_size n"
proof (induction n arbitrary: room)
  case (File k s)
  then show ?case by simp
next
  case NoDir
  then show ?case by simp
next
  case (Dir ns)
  from Dir.prems(2) have room: "room \<noteq> 0" by simp
  have "\<forall>d \<in> set (filter is_dir_node ns).
          \<exists>items. os_walk (room - 1) d = Inr items \<and> sum_walk items 0 = reachable_stat_size d"
  proof
    fix d assume d: "d \<in> set (filter is_dir_node ns)"
    then have "walk_depth d \<le> foldr max (map walk_depth (filter is_dir_node ns)) 0"
      by (rule le_foldr_max)
    then have "walk_depth d \<le> room - 1" using Dir.prems(2) by simp
    moreover have "d \<in> set ns" "is_dir_node d" using d by simp_all
    ultimately show "\<exists>items. os_walk (room - 1) d = Inr items
                       \<and> sum_walk items 0 = reachable_stat_size d"
      using Dir.IH by blast
  qed
  then obtain below where below:
      "walk_all (map (os_walk (room - 1)) (filter is_dir_node ns)) = Inr below"
      "sum_walk below 0 = (\<Sum>d\<leftarrow>filter is_dir_node ns. reachable_stat_size d)"
    using walk_all_sums [of "filter is_dir_node ns" "os_walk (room - 1)" reachable_stat_size]
    by blast
  have walk: "os_walk room (Dir ns) = Inr (files_of ns # below)"
    using room below(1) by simp
  have "sum_walk (files_of ns # below) 0 = sum_files (files_of ns) 0 + sum_walk below 0"
    using sum_walk_acc [of below "sum_files (files_of ns) 0"] by simp
  also have "\<dots> = reachable_stat_size (Dir ns)"
    using below(2) split_files_dirs [of ns] by simp
  finally show ?case using walk by simp
qed

lemma dir_size_bytes_Dir:
  "walk_depth (Dir ns) \<le> room \<Longrightarrow>
   dir_size_bytes room (Some (Dir ns)) = (\<Sum>n\<leftarrow>ns. reachable_stat_size n)"
  using os_walk_sums [of "Dir ns" room] by (auto simp: dir_size_bytes_def)

lemma only_regular_sizes: "only_regular n \<Longrightarrow> reachable_stat_size n = spec_regular_size n"
proof (induction n)
  case (File k s)
  then show ?case by (cases s) simp_all
next
  case NoDir
  show ?case by simp
next
  case (Dir ns)
  have "map reachable_stat_size ns = map spec_regular_size ns"
    using Dir by (simp add: list_all_iff)
  then show ?case by (simp only: reachable_stat_size.simps spec_regular_size.simps)
qed

lemma walk_depth_drop_file:
  "walk_depth (Dir (xs @ File k s # ys)) = walk_depth (Dir (xs @ ys))"
  by simp

lemma is_dir_node_chain: "is_dir_node (chain n)"
  by (cases n) simp_all

lemma os_walk_chain_raises: "room \<le> n \<Longrightarrow> os_walk room (chain n) = Inl RecursionError"
proof (induction n arbitrary: room)
  case 0
  then show ?case by simp
next
  case (Suc n)
  show ?case
  proof (cases "room = 0")
    case True
    then show ?thesis by simp
  next
    case False
    then have "room - 1 \<le> n" using Suc.prems by simp
    then have "os_walk (room - 1) (chain n) = Inl RecursionError" by (rule Suc.IH)
    then show ?thesis using False by (simp add: is_dir_node_chain)
  qed
qed

lemma spec_regular_size_chain: "spec_regular_size (chain n) = 0"
  by (induction n) simp_all

text \<open>
  C8, as stated, fails twice. A directory that holds a regular file of 123 bytes and a
  symbolic link to a file of 100 bytes is given the size 223, where its regular files
  sum to 123. And a directory that holds a regular file of 600 bytes beside a chain of
  1100 nested directories, with room for 998 nested calls, is given the size 0.
\<close>

theorem dir_size_bytes_counterexample:
  "dir_size_bytes 998 (Some (Dir [File Regular (Some 123), File NotRegular (Some 100)])) = 223
   \<and> spec_regular_size (Dir [File Regular (Some 123), File NotRegular (Some 100)]) = 123
   \<and> dir_size_bytes 998 (Some (Dir [File Regular (Some 600), chain 1100])) = 0
   \<and> spec_regular_size (Dir [File Regular (Some 600), chain 1100]) = 600"
proof -
  have a: "dir_size_bytes 998 (Some (Dir [File Regular (Some 123), File NotRegular (Some 100)])) = 223"
    by (simp add: dir_size_bytes_def stat_size_def)
  have b: "spec_regular_size (Dir [File Regular (Some 123), File NotRegular (Some 100)]) = 123"
    by simp
  have "os_walk 997 (chain 1100) = Inl RecursionError"
    by (rule os_walk_chain_raises) simp
  then have c: "dir_size_bytes 998 (Some (Dir [File Regular (Some 600), chain 1100])) = 0"
    by (simp add: dir_size_bytes_def is_dir_node_chain)
  have d: "spec_regular_size (Dir [File Regular (Some 600), chain 1100]) = 600"
    by (simp add: spec_regular_size_chain)
  show ?thesis using a b c d by blast
qed

text \<open>
  C8, amended. For a directory whose nesting the walk has room for, the scanner returns
  the sum of the \<open>stat()\<close> sizes of every entry that is no directory, reachable by
  recursive descent; this is the sum of the sizes of the regular files when every such
  entry is a regular file. An empty directory gives 0 and files of sizes 100, 200 and
  300 give 600; a path where nothing exists or a root that cannot be listed gives 0;
  and a file whose \<open>stat()\<close> fails adds nothing and does not stop the scan.
\<close>

theorem dir_size_bytes_sums_stat_sizes:
  "(walk_depth (Dir ns) \<le> room \<longrightarrow>
      dir_size_bytes room (Some (Dir ns)) = (\<Sum>n\<leftarrow>ns. reachable_stat_size n))
   \<and> (walk_depth (Dir ns) \<le> room \<and> only_regular (Dir ns) \<longrightarrow>
      dir_size_bytes room (Some (Dir ns)) = (\<Sum>n\<leftarrow>ns. spec_regular_size n))
   \<and> dir_size_bytes room (Some (Dir [])) = 0
   \<and> (0 < room \<longrightarrow>
      dir_size_bytes room
        (Some (Dir [File Regular (Some 100), File Regular (Some 200), File Regular (Some 300)]))
      = 600)
   \<and> dir_size_bytes room None = 0
   \<and> dir_size_bytes room (Some NoDir) = 0
   \<and> (walk_depth (Dir (xs @ ys)) \<le> room \<longrightarrow>
      dir_size_bytes room (Some (Dir (xs @ File k None # ys)))
      = dir_size_bytes room (Some (Dir (xs @ ys))))"
proof -
  have sums: "walk_depth (Dir ns) \<le> room \<longrightarrow>
      dir_size_bytes room (Some (Dir ns)) = (\<Sum>n\<leftarrow>ns. reachable_stat_size n)"
    using dir_size_bytes_Dir by blast
  have regular: "walk_depth (Dir ns) \<le> room \<and> only_regular (Dir ns) \<longrightarrow>
      dir_size_bytes room (Some (Dir ns)) = (\<Sum>n\<leftarrow>ns. spec_regular_size n)"
  proof
    assume h: "walk_depth (Dir ns) \<le> room \<and> only_regular (Dir ns)"
    then have "reachable_stat_size (Dir ns) = spec_regular_size (Dir ns)"
      using only_regular_sizes by blast
    then show "dir_size_bytes room (Some (Dir ns)) = (\<Sum>n\<leftarrow>ns. spec_regular_size n)"
      using h dir_size_bytes_Dir [of ns room] by simp
  qed
  have empty: "dir_size_bytes room (Some (Dir [])) = 0"
    by (simp add: dir_size_bytes_def)
  have three: "0 < room \<longrightarrow>
      dir_size_bytes room
        (Some (Dir [File Regular (Some 100), File Regular (Some 200), File Regular (Some 300)]))
      = 600"
    by (simp add: dir_size_bytes_def stat_size_def)
  have missing: "dir_size_bytes room None = 0"
    and unlisted: "dir_size_bytes room (Some NoDir) = 0"
    by (simp_all add: dir_size_bytes_def)
  have failing: "walk_depth (Dir (xs @ ys)) \<le> room \<longrightarrow>
      dir_size_bytes room (Some (Dir (xs @ File k None # ys)))
      = dir_size_bytes room (Some (Dir (xs @ ys)))"
  proof
    assume h: "walk_depth (Dir (xs @ ys)) \<le> room"
    then have "walk_depth (Dir (xs @ File k None # ys)) \<le> room"
      by (simp only: walk_depth_drop_file)
    then show "dir_size_bytes room (Some (Dir (xs @ File k None # ys)))
                 = dir_size_bytes room (Some (Dir (xs @ ys)))"
      using h by (simp add: dir_size_bytes_Dir)
  qed
  show ?thesis using sums regular empty three missing unlisted failing by blast
qed

theorem dir_size_bytes_sums_stat_sizes_witness:
  "dir_size_bytes 998
     (Some (Dir [File Regular (Some 123), File NotRegular (Some 100),
                 Dir [File Regular None, File Regular (Some 7)], NoDir])) = 230
   \<and> dir_size_bytes 998 (Some (Dir [File Regular (Some 123), Dir [File Regular (Some 7)]])) = 130
   \<and> (\<Sum>n\<leftarrow>[File Regular (Some 123), Dir [File Regular (Some 7)]]. spec_regular_size n) = 130
   \<and> dir_size_bytes 998
       (Some (Dir [File Regular (Some 100), File Regular (Some 200), File Regular (Some 300)]))
     = 600
   \<and> dir_size_bytes 998 (Some (Dir ([File Regular (Some 5)] @ File Regular None # [])))
     = dir_size_bytes 998 (Some (Dir ([File Regular (Some 5)] @ [])))"
  using dir_size_bytes_sums_stat_sizes
      [of "[File Regular (Some 123), File NotRegular (Some 100),
            Dir [File Regular None, File Regular (Some 7)], NoDir]" 998 "[]" "[]" Regular]
    dir_size_bytes_sums_stat_sizes
      [of "[File Regular (Some 123), Dir [File Regular (Some 7)]]" 998
          "[File Regular (Some 5)]" "[]" Regular]
  by simp

section \<open>The active-download selector: proofs\<close>

lemma collect_candidates_entries:
  "collect_candidates es = Inr cands \<Longrightarrow>
   \<forall>c \<in> set cands. snd c \<in> set es \<and> ent_stat_listed (snd c) = Some (fst c)
      \<and> ent_is_dir (snd c) = Some True \<and> isdigit (ent_name (snd c))"
proof (induction es arbitrary: cands)
  case Nil
  then show ?case by simp
next
  case (Cons p ps)
  from Cons.prems obtain d rest where d: "ent_is_dir p = Some d"
      and rest: "collect_candidates ps = Inr rest"
    by (auto split: option.splits sum.splits)
  have IH: "\<forall>c \<in> set rest. snd c \<in> set ps \<and> ent_stat_listed (snd c) = Some (fst c)
      \<and> ent_is_dir (snd c) = Some True \<and> isdigit (ent_name (snd c))"
    using rest by (rule Cons.IH)
  show ?case
  proof (cases "d \<and> isdigit (ent_name p)")
    case False
    then have "cands = rest" using Cons.prems d rest by auto
    then show ?thesis using IH by auto
  next
    case True
    show ?thesis
    proof (cases "ent_stat_listed p")
      case None
      then have "cands = rest" using Cons.prems d rest True by auto
      then show ?thesis using IH by auto
    next
      case (Some mtime)
      then have "cands = (mtime, p) # rest" using Cons.prems d rest True by auto
      then show ?thesis using IH True d Some by auto
    qed
  qed
qed

lemma scan_candidates_find:
  "\<forall>c \<in> set (takeWhile (\<lambda>c. \<not> spec_accepts (walk_room w) c) cs).
      ent_stat_checked (snd c) \<noteq> None \<Longrightarrow>
   scan_candidates w sp cs =
     (case find (spec_accepts (walk_room w)) cs of
        None \<Rightarrow> Inr None
      | Some c \<Rightarrow>
          accept_candidate w sp (snd c) (dir_size_bytes (walk_room w) (ent_tree (snd c))))"
proof (induction cs)
  case Nil
  show ?case by simp
next
  case (Cons c cs)
  obtain m e where c: "c = (m, e)" by (cases c)
  show ?case
  proof (cases "spec_accepts (walk_room w) c")
    case True
    then have acc: "0 < dir_size_bytes (walk_room w) (ent_tree e)
        \<or> (\<exists>mt. ent_stat_checked e = Some mt \<and> ent_clock e - mt < 600)"
      using c by (auto simp: spec_accepts_def split: option.splits)
    have "find (spec_accepts (walk_room w)) (c # cs) = Some c" using True by simp
    moreover have "scan_candidates w sp (c # cs) =
        accept_candidate w sp e (dir_size_bytes (walk_room w) (ent_tree e))"
      using acc c by (auto simp: Let_def)
    ultimately show ?thesis using c by simp
  next
    case False
    then have small: "\<not> 0 < dir_size_bytes (walk_room w) (ent_tree e)"
      using c by (simp add: spec_accepts_def)
    from Cons.prems False have "ent_stat_checked (snd c) \<noteq> None" by simp
    then obtain mt where mt: "ent_stat_checked e = Some mt" using c by auto
    have old: "\<not> ent_clock e - mt < 600"
      using False c mt by (simp add: spec_accepts_def)
    from Cons.prems False
    have "\<forall>c \<in> set (takeWhile (\<lambda>c. \<not> spec_accepts (walk_room w) c) cs).
            ent_stat_checked (snd c) \<noteq> None"
      by simp
    then have IH: "scan_candidates w sp cs =
       (case find (spec_accepts (walk_room w)) cs of
          None \<Rightarrow> Inr None
        | Some c \<Rightarrow>
            accept_candidate w sp (snd c) (dir_size_bytes (walk_room w) (ent_tree (snd c))))"
      by (rule Cons.IH)
    have "find (spec_accepts (walk_room w)) (c # cs) = find (spec_accepts (walk_room w)) cs"
      using False by simp
    moreover have "scan_candidates w sp (c # cs) = scan_candidates w sp cs"
      using small old c mt by (simp add: Let_def)
    ultimately show ?thesis using IH by simp
  qed
qed

lemma sort_candidates_desc:
  "i \<le> j \<Longrightarrow> j < length (sort_candidates cs) \<Longrightarrow>
   fst (sort_candidates cs ! j) \<le> fst (sort_candidates cs ! i)"
proof -
  assume ij: "i \<le> j" and j: "j < length (sort_candidates cs)"
  let ?s = "sort_candidates cs"
  have "sorted (map (\<lambda>x. - fst x) ?s)" by (simp add: sort_candidates_def)
  then have "map (\<lambda>x. - fst x) ?s ! i \<le> map (\<lambda>x. - fst x) ?s ! j"
    using ij j by (simp add: sorted_iff_nth_mono del: nth_map)
  then show ?thesis using ij j by simp
qed

lemma sort_candidates_mset: "mset (sort_candidates cs) = mset cs"
  by (simp add: sort_candidates_def)

text \<open>
  The selector when the calls it does not guard succeed: the directory is listed, no
  \<open>is_dir()\<close> raises, and \<open>stat()\<close> succeeds on each candidate that is examined and
  rejected. The candidates are the numeric-named directories whose modification time
  could be read, keyed by that time; they are sorted by it, descending; and what is
  returned comes from the first of the first five that passes the test, or is no
  download when none does.
\<close>

lemma selector_when_calls_succeed:
  assumes "downloading_dir w = Entries es"
      and "collect_candidates es = Inr cands"
      and "cs = sort_candidates cands"
      and "\<forall>c \<in> set (takeWhile (\<lambda>c. \<not> spec_accepts (walk_room w) c) (take 5 cs)).
             ent_stat_checked (snd c) \<noteq> None"
  shows "(\<forall>c \<in> set cands. snd c \<in> set es \<and> ent_stat_listed (snd c) = Some (fst c)
            \<and> ent_is_dir (snd c) = Some True \<and> isdigit (ent_name (snd c)))
       \<and> mset cs = mset cands
       \<and> (\<forall>i j. i \<le> j \<and> j < length cs \<longrightarrow> fst (cs ! j) \<le> fst (cs ! i))
       \<and> find_active_download w sp =
           (case find (spec_accepts (walk_room w)) (take 5 cs) of
              None \<Rightarrow> Inr None
            | Some c \<Rightarrow>
                accept_candidate w sp (snd c) (dir_size_bytes (walk_room w) (ent_tree (snd c))))"
proof -
  have keys: "\<forall>c \<in> set cands. snd c \<in> set es \<and> ent_stat_listed (snd c) = Some (fst c)
            \<and> ent_is_dir (snd c) = Some True \<and> isdigit (ent_name (snd c))"
    using assms(2) by (rule collect_candidates_entries)
  have perm: "mset cs = mset cands"
    using assms(3) by (simp add: sort_candidates_mset)
  have desc: "\<forall>i j. i \<le> j \<and> j < length cs \<longrightarrow> fst (cs ! j) \<le> fst (cs ! i)"
    using assms(3) sort_candidates_desc by blast
  have scan: "scan_candidates w sp (take 5 cs) =
           (case find (spec_accepts (walk_room w)) (take 5 cs) of
              None \<Rightarrow> Inr None
            | Some c \<Rightarrow>
                accept_candidate w sp (snd c) (dir_size_bytes (walk_room w) (ent_tree (snd c))))"
    using assms(4) by (rule scan_candidates_find)
  have res: "find_active_download w sp =
           (case find (spec_accepts (walk_room w)) (take 5 cs) of
              None \<Rightarrow> Inr None
            | Some c \<Rightarrow>
                accept_candidate w sp (snd c) (dir_size_bytes (walk_room w) (ent_tree (snd c))))"
  proof (cases "cands = []")
    case True
    then have "cs = []" using assms(3) by (simp add: sort_candidates_def)
    then show ?thesis using True assms(1,2) by (simp add: find_active_download_def)
  next
    case False
    then show ?thesis using assms(1,2,3) scan by (simp add: find_active_download_def)
  qed
  show ?thesis using keys perm desc res by blast
qed

lemmas selector_eval = find_active_download_def world_with_def fresh_dir_def stale_dir_def
  sort_candidates_def isdigit_def is_digit_char_def dir_size_bytes_def
  stat_size_def accept_candidate_def display_name_def parse_acf_def manifest_with_name_def
  download_123_def Let_def

text \<open>
  C4. Two candidates: 456, modified at time 2000, was listed and is gone when it is
  examined at time 3000; 123, modified at time 1000, has 5000 bytes on disk. Sorted by
  modification time, descending, 456 comes first. It fails the test, having no size and
  being 1000 seconds old by the time that was read, and 123 passes it, so the first of
  the five that passes is 123. The selector does not return it: the \<open>stat()\<close> on 456
  raises and ends the scan.
\<close>

theorem newer_vanished_candidate_hides_download:
  "collect_candidates [older_full_dir, gone_newer_dir]
     = Inr [(1000, older_full_dir), (2000, gone_newer_dir)]
   \<and> take 5 (sort_candidates [(1000, older_full_dir), (2000, gone_newer_dir)])
     = [(2000, gone_newer_dir), (1000, older_full_dir)]
   \<and> dir_size_bytes 998 (ent_tree gone_newer_dir) = 0
   \<and> 600 \<le> ent_clock gone_newer_dir - 2000
   \<and> \<not> spec_accepts 998 (2000, gone_newer_dir)
   \<and> spec_accepts 998 (1000, older_full_dir)
   \<and> find_active_download (world_with [older_full_dir, gone_newer_dir] NotExists) [''steamapps'']
     = Inl OSError"
  by (simp add: selector_eval gone_newer_dir_def older_full_dir_def spec_accepts_def)

text \<open>
  C2. A candidate that is listed and then vanishes: \<open>dir_size_bytes\<close> gives 0 for it,
  so the loop calls \<open>app_dir.stat()\<close>, outside any \<open>try\<close>, and the exception leaves
  the selector and the polling round. The \<open>stat()\<close> of the listing loop is guarded,
  this one is not.
\<close>

theorem vanished_candidate_aborts_round:
  "find_active_download (world_with [vanished_dir] NotExists) [''steamapps''] = Inl OSError
   \<and> poll_round (world_with [vanished_dir] NotExists) [''steamapps'']
        \<lparr>prev = Map.empty, prev_time = Map.empty\<rparr> 1100 60 = Inl OSError"
  by (simp add: poll_round_def vanished_dir_def selector_eval)

lemma scan_candidates_result:
  "scan_candidates w sp cs = Inr (Some ad) \<Longrightarrow>
   \<exists>e s. accept_candidate w sp e s = Inr (Some ad)"
proof (induction cs)
  case Nil
  then show ?case by simp
next
  case (Cons c cs)
  obtain m e where c: "c = (m, e)" by (cases c)
  show ?case
  proof (cases "scan_candidates w sp (c # cs) = scan_candidates w sp cs")
    case True
    then show ?thesis using Cons by auto
  next
    case False
    then have "(\<exists>s. scan_candidates w sp (c # cs) = accept_candidate w sp e s)
               \<or> scan_candidates w sp (c # cs) = Inl OSError"
      using c by (auto simp: Let_def split: option.splits if_splits)
    then show ?thesis
    proof
      assume "\<exists>s. scan_candidates w sp (c # cs) = accept_candidate w sp e s"
      then obtain s where "scan_candidates w sp (c # cs) = accept_candidate w sp e s" ..
      with Cons.prems have "accept_candidate w sp e s = Inr (Some ad)" by simp
      then show ?thesis by blast
    next
      assume "scan_candidates w sp (c # cs) = Inl OSError"
      with Cons.prems show ?thesis by simp
    qed
  qed
qed

lemma find_active_download_name:
  assumes "find_active_download w sp = Inr (Some ad)"
  shows "\<exists>info. parse_acf (files w (sp @ [''appmanifest_'' @ appid ad @ ''.acf''])) = Inr info
           \<and> name ad = display_name info (appid ad)"
proof -
  from assms obtain cs where "scan_candidates w sp cs = Inr (Some ad)"
    by (auto simp: find_active_download_def split: listing.splits sum.splits if_splits)
  then obtain e s where "accept_candidate w sp e s = Inr (Some ad)"
    using scan_candidates_result by blast
  then show ?thesis
    by (auto simp: accept_candidate_def Let_def split: sum.splits)
qed

text \<open>
  C3, as stated, fails twice. A manifest whose \<open>name\<close> key is present with an empty
  value does not give the empty name but the fallback label; and the fallback label is
  \<open>AppID 123\<close>, not \<open>Package 123\<close>.
\<close>

theorem display_name_counterexample:
  "find_active_download (world_with [fresh_dir] (Text (manifest_with_name ''''))) [''steamapps'']
     = Inr (Some (download_123 ''AppID 123'' 5000))
   \<and> parse_acf (files (world_with [fresh_dir] (Text (manifest_with_name '''')))
        [''steamapps'', ''appmanifest_123.acf'']) = Inr [''name'' \<mapsto> '''']
   \<and> name (download_123 ''AppID 123'' 5000) \<noteq> ''''
   \<and> find_active_download (world_with [fresh_dir] NotExists) [''steamapps'']
     = Inr (Some (download_123 ''AppID 123'' 5000))
   \<and> parse_acf (files (world_with [fresh_dir] NotExists)
        [''steamapps'', ''appmanifest_123.acf'']) = Inr Map.empty
   \<and> name (download_123 ''AppID 123'' 5000) \<noteq> ''Package 123''"
  by (simp add: selector_eval acf_eval)

text \<open>
  C3, amended. For every accepted candidate the display name is the manifest's \<open>name\<close>
  value when the key is present with a value that is not empty, and the label
  \<open>AppID <id>\<close> when the key is absent or its value is empty.
\<close>

theorem display_name_resolution:
  assumes "find_active_download w sp = Inr (Some ad)"
  shows "\<exists>info. parse_acf (files w (sp @ [''appmanifest_'' @ appid ad @ ''.acf''])) = Inr info
       \<and> (\<forall>v. info ''name'' = Some v \<and> v \<noteq> [] \<longrightarrow> name ad = v)
       \<and> (info ''name'' = None \<or> info ''name'' = Some [] \<longrightarrow> name ad = ''AppID '' @ appid ad)"
proof -
  from find_active_download_name [OF assms] obtain info
    where info: "parse_acf (files w (sp @ [''appmanifest_'' @ appid ad @ ''.acf''])) = Inr info"
      and nm: "name ad = display_name info (appid ad)"
    by blast
  have "(\<forall>v. info ''name'' = Some v \<and> v \<noteq> [] \<longrightarrow> name ad = v)
       \<and> (info ''name'' = None \<or> info ''name'' = Some [] \<longrightarrow> name ad = ''AppID '' @ appid ad)"
    using nm by (auto simp: display_name_def)
  then show ?thesis using info by blast
qed

theorem display_name_resolution_witness:
  "find_active_download (world_with [fresh_dir] (Text (manifest_with_name ''Foo''))) [''steamapps'']
     = Inr (Some (download_123 ''Foo'' 5000))
   \<and> parse_acf (Text (manifest_with_name ''Foo'')) = Inr [''name'' \<mapsto> ''Foo'']
   \<and> name (download_123 ''Foo'' 5000) = ''Foo''"
  using display_name_resolution
    [of "world_with [fresh_dir] (Text (manifest_with_name ''Foo''))" "[''steamapps'']"
        "download_123 ''Foo'' 5000"]
  by (simp add: selector_eval acf_eval)

text \<open>
  C10. The display name of a reported download is never the empty string: a manifest
  \<open>name\<close> that is present but empty is replaced by the label built from the identifier.
\<close>

theorem display_name_never_empty:
  assumes "find_active_download w sp = Inr (Some ad)"
  shows "name ad \<noteq> []
       \<and> (\<exists>info. parse_acf (files w (sp @ [''appmanifest_'' @ appid ad @ ''.acf''])) = Inr info
            \<and> (info ''name'' = Some [] \<longrightarrow> name ad = ''AppID '' @ appid ad))"
proof -
  from find_active_download_name [OF assms] obtain info
    where info: "parse_acf (files w (sp @ [''appmanifest_'' @ appid ad @ ''.acf''])) = Inr info"
      and nm: "name ad = display_name info (appid ad)"
    by blast
  have "name ad \<noteq> []" "info ''name'' = Some [] \<longrightarrow> name ad = ''AppID '' @ appid ad"
    using nm by (auto simp: display_name_def split: option.splits)
  then show ?thesis using info by blast
qed

theorem display_name_never_empty_witness:
  "find_active_download (world_with [stale_dir, fresh_dir] (Text (manifest_with_name '''')))
       [''steamapps'']
     = Inr (Some (download_123 ''AppID 123'' 5000))
   \<and> name (download_123 ''AppID 123'' 5000) \<noteq> []"
  using display_name_never_empty
    [of "world_with [stale_dir, fresh_dir] (Text (manifest_with_name ''''))" "[''steamapps'']"
        "download_123 ''AppID 123'' 5000"]
  by (simp add: selector_eval acf_eval)

section \<open>The rate estimator: proofs\<close>

lemmas rate_eval = rate_round_def delta_bytes_def last_b_def last_t_def status_of_def
  download_123_def Let_def

text \<open>
  C1, as stated, fails: on the first observation of package 123 with size 1,000,000 and
  interval 60 the previous size defaults to the current size, so the rate is 0, more
  than 16,666 away from 1,000,000 / 60.
\<close>

theorem first_observation_rate_counterexample:
  "line_rate (snd (rate_round \<lparr>prev = Map.empty, prev_time = Map.empty\<rparr> 1000 60
                    (Some (download_123 ''AppID 123'' 1000000)))) = 0
   \<and> \<bar>line_rate (snd (rate_round \<lparr>prev = Map.empty, prev_time = Map.empty\<rparr> 1000 60
                    (Some (download_123 ''AppID 123'' 1000000)))) - 1000000 / 60\<bar> > 16666"
  by (simp add: rate_eval)

text \<open>
  C1, amended. On the first observation of a package (no entry in \<open>prev\<close>) delta is
  0, the reported rate is 0 and the status is \<open>paused or idle\<close>, whatever the size and
  the interval; the elapsed time it is divided by is one nominal interval, floored at 1.
\<close>

theorem first_observation_rate_zero:
  assumes "prev st (appid a) = None"
  shows "delta_bytes st a = 0
       \<and> snd (rate_round st now interval (Some a))
           = StatusLine (name a) (appid a) ''paused or idle'' 0 (bytes_on_disk a)
       \<and> (prev_time st (appid a) = None
            \<longrightarrow> max 1 (now - last_t st now interval a) = max 1 (real_of_int interval))"
  using assms by (simp add: rate_round_def delta_bytes_def last_b_def last_t_def status_of_def Let_def)

theorem first_observation_rate_zero_witness:
  "snd (rate_round \<lparr>prev = Map.empty, prev_time = Map.empty\<rparr> 1000 60
          (Some (download_123 ''AppID 123'' 1000000)))
     = StatusLine ''AppID 123'' ''123'' ''paused or idle'' 0 1000000
   \<and> max 1 (1000 - last_t \<lparr>prev = Map.empty, prev_time = Map.empty\<rparr> 1000 60
                     (download_123 ''AppID 123'' 1000000)) = (60::real)"
  using first_observation_rate_zero
    [of "\<lparr>prev = Map.empty, prev_time = Map.empty\<rparr>" "download_123 ''AppID 123'' 1000000" 1000 60]
  by (simp add: download_123_def)

text \<open>
  C5. Delta is the maximum of 0 and the current size minus the previous size, so it is
  never negative and a size that did not grow gives 0; the rate is delta over an elapsed
  time of at least 1; and the status is \<open>paused or idle\<close> exactly when delta is below
  262144, \<open>downloading\<close> otherwise.
\<close>

theorem delta_clamped_and_classified:
  "delta_bytes st a = max 0 (bytes_on_disk a - last_b st a)
   \<and> 0 \<le> delta_bytes st a
   \<and> (prev st (appid a) = Some p \<longrightarrow> delta_bytes st a = max 0 (bytes_on_disk a - p))
   \<and> (prev st (appid a) = Some p \<and> bytes_on_disk a \<le> p \<longrightarrow> delta_bytes st a = 0)
   \<and> (\<exists>dt \<ge> 1. snd (rate_round st now interval (Some a))
         = StatusLine (name a) (appid a)
             (if delta_bytes st a < 262144 then ''paused or idle'' else ''downloading'')
             (real_of_int (delta_bytes st a) / dt) (bytes_on_disk a))
   \<and> 0 \<le> line_rate (snd (rate_round st now interval (Some a)))
   \<and> (line_status (snd (rate_round st now interval (Some a))) = ''paused or idle''
        \<longleftrightarrow> delta_bytes st a < 262144)
   \<and> (line_status (snd (rate_round st now interval (Some a))) = ''downloading''
        \<longleftrightarrow> 262144 \<le> delta_bytes st a)"
proof -
  let ?dt = "max 1 (now - last_t st now interval a)"
  have dt: "1 \<le> ?dt" by simp
  have d0: "0 \<le> delta_bytes st a" by (simp add: delta_bytes_def)
  have line: "snd (rate_round st now interval (Some a))
         = StatusLine (name a) (appid a)
             (if delta_bytes st a < 262144 then ''paused or idle'' else ''downloading'')
             (real_of_int (delta_bytes st a) / ?dt) (bytes_on_disk a)"
    by (simp add: rate_round_def status_of_def Let_def)
  have ex: "\<exists>dt \<ge> 1. snd (rate_round st now interval (Some a))
         = StatusLine (name a) (appid a)
             (if delta_bytes st a < 262144 then ''paused or idle'' else ''downloading'')
             (real_of_int (delta_bytes st a) / dt) (bytes_on_disk a)"
    using dt line by blast
  have rate: "0 \<le> line_rate (snd (rate_round st now interval (Some a)))"
    using d0 dt by (simp only: line report.sel) (simp add: divide_nonneg_pos)
  have st1: "line_status (snd (rate_round st now interval (Some a))) = ''paused or idle''
        \<longleftrightarrow> delta_bytes st a < 262144"
    by (simp only: line report.sel) simp
  have st2: "line_status (snd (rate_round st now interval (Some a))) = ''downloading''
        \<longleftrightarrow> 262144 \<le> delta_bytes st a"
    by (simp only: line report.sel) auto
  have p1: "prev st (appid a) = Some p \<longrightarrow> delta_bytes st a = max 0 (bytes_on_disk a - p)"
    by (simp add: delta_bytes_def last_b_def)
  have p2: "prev st (appid a) = Some p \<and> bytes_on_disk a \<le> p \<longrightarrow> delta_bytes st a = 0"
    by (simp add: delta_bytes_def last_b_def)
  have def: "delta_bytes st a = max 0 (bytes_on_disk a - last_b st a)"
    by (simp add: delta_bytes_def)
  show ?thesis using def d0 p1 p2 ex rate st1 st2 by blast
qed

theorem delta_clamped_and_classified_witness:
  "delta_bytes \<lparr>prev = [''123'' \<mapsto> 2000000], prev_time = [''123'' \<mapsto> 940]\<rparr>
      (download_123 ''AppID 123'' 1000000) = 0
   \<and> line_status (snd (rate_round \<lparr>prev = [''123'' \<mapsto> 2000000], prev_time = [''123'' \<mapsto> 940]\<rparr>
        1000 60 (Some (download_123 ''AppID 123'' 1000000)))) = ''paused or idle''
   \<and> delta_bytes \<lparr>prev = [''123'' \<mapsto> 1000000], prev_time = [''123'' \<mapsto> 940]\<rparr>
      (download_123 ''AppID 123'' 2500000) = 1500000
   \<and> line_status (snd (rate_round \<lparr>prev = [''123'' \<mapsto> 1000000], prev_time = [''123'' \<mapsto> 940]\<rparr>
        1000 60 (Some (download_123 ''AppID 123'' 2500000)))) = ''downloading''"
  using delta_clamped_and_classified
    [of "\<lparr>prev = [''123'' \<mapsto> 2000000], prev_time = [''123'' \<mapsto> 940]\<rparr>"
        "download_123 ''AppID 123'' 1000000" 2000000 1000 60]
    delta_clamped_and_classified
    [of "\<lparr>prev = [''123'' \<mapsto> 1000000], prev_time = [''123'' \<mapsto> 940]\<rparr>"
        "download_123 ''AppID 123'' 2500000" 1000000 1000 60]
  by (simp add: rate_eval)

text \<open>
  C9. A round without an active download leaves \<open>prev\<close> and \<open>prev_time\<close> as they
  are; a round with one sets the active package's entries to the current size and the
  current time and leaves the entries of every other package as they are.
\<close>

theorem rate_state_frame:
  "fst (rate_round st now interval None) = st
   \<and> prev (fst (rate_round st now interval (Some a))) (appid a) = Some (bytes_on_disk a)
   \<and> prev_time (fst (rate_round st now interval (Some a))) (appid a) = Some now
   \<and> (k \<noteq> appid a \<longrightarrow>
        prev (fst (rate_round st now interval (Some a))) k = prev st k
        \<and> prev_time (fst (rate_round st now interval (Some a))) k = prev_time st k)
   \<and> (find_active_download w sp = Inr None \<longrightarrow>
        poll_round w sp st now interval = Inr (st, NoActive))"
  by (simp add: rate_round_def poll_round_def Let_def)

theorem rate_state_frame_witness:
  "prev (fst (rate_round \<lparr>prev = [''77'' \<mapsto> 10], prev_time = [''77'' \<mapsto> 5]\<rparr> 1000 60
                 (Some (download_123 ''AppID 123'' 5000)))) ''77'' = Some 10
   \<and> prev_time (fst (rate_round \<lparr>prev = [''77'' \<mapsto> 10], prev_time = [''77'' \<mapsto> 5]\<rparr> 1000 60
                 (Some (download_123 ''AppID 123'' 5000)))) ''77'' = Some 5
   \<and> prev (fst (rate_round \<lparr>prev = [''77'' \<mapsto> 10], prev_time = [''77'' \<mapsto> 5]\<rparr> 1000 60
                 (Some (download_123 ''AppID 123'' 5000)))) ''123'' = Some 5000
   \<and> poll_round (world_with [] NotExists) [''steamapps'']
        \<lparr>prev = [''77'' \<mapsto> 10], prev_time = [''77'' \<mapsto> 5]\<rparr> 1000 60
       = Inr (\<lparr>prev = [''77'' \<mapsto> 10], prev_time = [''77'' \<mapsto> 5]\<rparr>, NoActive)"
  using rate_state_frame
    [of "\<lparr>prev = [''77'' \<mapsto> 10], prev_time = [''77'' \<mapsto> 5]\<rparr>" 1000 60
        "download_123 ''AppID 123'' 5000" "''77''" "world_with [] NotExists" "[''steamapps'']"]
  by (simp add: download_123_def find_active_download_def world_with_def)

end
